theory Spec2Isabelle
  imports Main "HOL-Library.Word"
begin

unbundle bit_operations_syntax

section \<open>The request form and the request list of the Angular front end\<close>

text \<open>
  The two components under \<^verbatim>\<open>src/\<close> are \<^verbatim>\<open>AccessRequestFormComponent\<close>
  (the form that posts a new access request) and \<^verbatim>\<open>AccessRequestListComponent\<close>
  (the table whose buttons approve or reject a pending request). Both talk to
  the outside only through \<^verbatim>\<open>HttpClient\<close>, \<^verbatim>\<open>MatSnackBar\<close> and the browser's
  \<^verbatim>\<open>prompt\<close>; a method is modelled as a function from the component's state
  and the user's input to the new state and the list of effects it performs,
  in the order it performs them.
\<close>

subsection \<open>Effects\<close>

text \<open>
  A JSON object literal is an association list in the order its keys are
  written; a value is a control's value, a string or \<^verbatim>\<open>null\<close>. A request
  carries its URL and, for POST and PUT, its body (\<^verbatim>\<open>{}\<close> is the empty list).
  A \<open>char\<close> stands for one UTF-16 code unit of a JavaScript string, so \<open>length\<close>
  is the string's \<^verbatim>\<open>length\<close>.
\<close>

type_synonym json_object = "(string \<times> string option) list"

datatype effect =
    HttpGet string
  | HttpPost string json_object
  | HttpPut string json_object
  | SnackBarOpen string
  | Prompt string

fun is_http :: "effect \<Rightarrow> bool" where
  "is_http (HttpGet u) = True"
| "is_http (HttpPost u b) = True"
| "is_http (HttpPut u b) = True"
| "is_http (SnackBarOpen m) = False"
| "is_http (Prompt m) = False"

subsection \<open>The validators the form is built with\<close>

text \<open>
  A control of this form holds a string, or \<^verbatim>\<open>null\<close> after
  \<^verbatim>\<open>FormGroup.reset()\<close>. The three validators are Angular's:
  \<^verbatim>\<open>Validators.required\<close> refuses \<^verbatim>\<open>null\<close> and the string of length zero;
  \<^verbatim>\<open>Validators.email\<close> and \<^verbatim>\<open>Validators.minLength\<close> accept every value that
  \<^verbatim>\<open>required\<close> would refuse and test the others. The regular expression of
  \<^verbatim>\<open>Validators.email\<close> belongs to the framework and is a parameter here.
\<close>

definition isEmptyInputValue :: "string option \<Rightarrow> bool" where
  "isEmptyInputValue v = (case v of None \<Rightarrow> True | Some s \<Rightarrow> length s = 0)"

definition required :: "string option \<Rightarrow> bool" where
  "required v = (\<not> isEmptyInputValue v)"

definition email :: "(string \<Rightarrow> bool) \<Rightarrow> string option \<Rightarrow> bool" where
  "email EMAIL_REGEXP v =
     (case v of None \<Rightarrow> True
      | Some s \<Rightarrow> if length s = 0 then True else EMAIL_REGEXP s)"

definition minLength :: "nat \<Rightarrow> string option \<Rightarrow> bool" where
  "minLength n v =
     (case v of None \<Rightarrow> True
      | Some s \<Rightarrow> if length s = 0 then True else n \<le> length s)"

subsection \<open>AccessRequestFormComponent\<close>

record FormGroup =
  requesterEmail :: "string option"
  resource :: "string option"
  serviceType :: "string option"
  accessLevel :: "string option"
  requestedDuration :: "string option"
  justification :: "string option"

record AccessRequestFormComponent =
  accessRequestForm :: FormGroup
  isSubmitting :: bool

text \<open>The group built in the constructor: six empty strings.\<close>

definition constructor_form :: FormGroup where
  "constructor_form =
     \<lparr> requesterEmail = Some [], resource = Some [], serviceType = Some [],
       accessLevel = Some [], requestedDuration = Some [], justification = Some [] \<rparr>"

definition constructor :: AccessRequestFormComponent where
  "constructor = \<lparr> accessRequestForm = constructor_form, isSubmitting = False \<rparr>"

text \<open>
  \<^verbatim>\<open>FormGroup.valid\<close>: every control passes every validator it was given in
  the constructor.
\<close>

definition valid :: "(string \<Rightarrow> bool) \<Rightarrow> FormGroup \<Rightarrow> bool" where
  "valid EMAIL_REGEXP f =
     (required (requesterEmail f) \<and> email EMAIL_REGEXP (requesterEmail f)
      \<and> required (resource f)
      \<and> required (serviceType f)
      \<and> required (accessLevel f)
      \<and> required (requestedDuration f)
      \<and> required (justification f) \<and> minLength 10 (justification f))"

definition patchDefaults :: "FormGroup \<Rightarrow> FormGroup" where
  "patchDefaults f =
     f\<lparr> serviceType := Some ''cloudsql'',
        accessLevel := Some ''read_only'',
        requestedDuration := Some ''30d'' \<rparr>"

definition ngOnInit :: "AccessRequestFormComponent \<Rightarrow> AccessRequestFormComponent" where
  "ngOnInit c = c\<lparr> accessRequestForm := patchDefaults (accessRequestForm c) \<rparr>"

definition reset :: FormGroup where
  "reset =
     \<lparr> requesterEmail = None, resource = None, serviceType = None,
       accessLevel = None, requestedDuration = None, justification = None \<rparr>"

definition resetForm :: "AccessRequestFormComponent \<Rightarrow> AccessRequestFormComponent" where
  "resetForm c = c\<lparr> accessRequestForm := patchDefaults reset \<rparr>"

definition payload :: "FormGroup \<Rightarrow> json_object" where
  "payload formValue =
     [ (''requester_email'', requesterEmail formValue),
       (''resource'', resource formValue),
       (''service_type'', serviceType formValue),
       (''access_level'', accessLevel formValue),
       (''requested_duration'', requestedDuration formValue),
       (''justification'', justification formValue) ]"

text \<open>
  \<^verbatim>\<open>onSubmit\<close> up to the call of \<^verbatim>\<open>subscribe\<close>; the two callbacks run later,
  when the server has answered, and are functions of their own.
\<close>

definition onSubmit ::
  "(string \<Rightarrow> bool) \<Rightarrow> AccessRequestFormComponent \<Rightarrow> AccessRequestFormComponent \<times> effect list"
where
  "onSubmit EMAIL_REGEXP c =
     (if valid EMAIL_REGEXP (accessRequestForm c)
      then (c\<lparr> isSubmitting := True \<rparr>,
            [HttpPost ''http://localhost:8000/api/access-requests''
               (payload (accessRequestForm c))])
      else (c, []))"

definition onSubmit_next ::
  "AccessRequestFormComponent \<Rightarrow> AccessRequestFormComponent \<times> effect list"
where
  "onSubmit_next c =
     (resetForm (c\<lparr> isSubmitting := False \<rparr>),
      [SnackBarOpen ''Access request submitted successfully!''])"

definition onSubmit_error ::
  "AccessRequestFormComponent \<Rightarrow> AccessRequestFormComponent \<times> effect list"
where
  "onSubmit_error c =
     (c\<lparr> isSubmitting := False \<rparr>, [SnackBarOpen ''Failed to submit access request.''])"

text \<open>
  Two states of the form for the examples below, and a stand-in for the
  framework's e-mail pattern: the address holds an \<^verbatim>\<open>@\<close>.
\<close>

definition has_at :: "string \<Rightarrow> bool" where
  "has_at s = (CHR ''@'' \<in> set s)"

definition filled_form :: AccessRequestFormComponent where
  "filled_form =
     \<lparr> accessRequestForm =
         \<lparr> requesterEmail = Some ''alice@company.com'', resource = Some ''sales-db'',
           serviceType = Some ''cloudsql'', accessLevel = Some ''read_only'',
           requestedDuration = Some ''30d'',
           justification = Some ''quarterly sales report'' \<rparr>,
       isSubmitting = False \<rparr>"

definition hasty_form :: AccessRequestFormComponent where
  "hasty_form =
     filled_form\<lparr> accessRequestForm :=
       (accessRequestForm filled_form)\<lparr> justification := Some ''too short'' \<rparr> \<rparr>"

subsection \<open>AccessRequestListComponent\<close>

text \<open>
  \<^verbatim>\<open>approve\<close> and \<^verbatim>\<open>reject\<close> read nothing of the component but the row they
  are called with, and of the row only \<^verbatim>\<open>req.id\<close>, which the template literal
  turns into text: \<open>req_id\<close> is that text. What the user answers to a
  \<^verbatim>\<open>prompt\<close> is an argument: \<open>None\<close> is \<^verbatim>\<open>null\<close> (the dialog was cancelled).
  A value is falsy when it is \<^verbatim>\<open>null\<close> or the empty string.
  \<^verbatim>\<open>encodeURIComponent\<close> is the platform's; it throws \<^verbatim>\<open>URIError\<close> on a lone
  surrogate, which is \<open>None\<close> here, and the method then ends before
  \<^verbatim>\<open>http.put\<close> is called.
\<close>

definition falsy :: "string option \<Rightarrow> bool" where
  "falsy v = (case v of None \<Rightarrow> True | Some s \<Rightarrow> s = [])"

definition loadRequests :: "effect list" where
  "loadRequests = [HttpGet ''/api/access-requests'']"

definition approve ::
  "(string \<Rightarrow> string option) \<Rightarrow> string \<Rightarrow> string option \<Rightarrow> effect list"
where
  "approve encodeURIComponent req_id approver_email =
     Prompt ''Enter your email to approve:'' #
     (if falsy approver_email then []
      else case encodeURIComponent (the approver_email) of
             None \<Rightarrow> []
           | Some a \<Rightarrow>
               [HttpPut (''/api/access-requests/'' @ req_id @ ''/approve?approver_email='' @ a)
                  []])"

definition reject ::
  "(string \<Rightarrow> string option) \<Rightarrow> string \<Rightarrow> string option \<Rightarrow> string option \<Rightarrow> effect list"
where
  "reject encodeURIComponent req_id rejector_email reason =
     Prompt ''Enter your email to reject:'' #
     (if falsy rejector_email then []
      else Prompt ''Enter rejection reason:'' #
        (if falsy reason then []
         else case encodeURIComponent (the rejector_email) of
                None \<Rightarrow> []
              | Some a \<Rightarrow>
                  (case encodeURIComponent (the reason) of
                     None \<Rightarrow> []
                   | Some r \<Rightarrow>
                       [HttpPut (''/api/access-requests/'' @ req_id @ ''/reject?rejector_email=''
                                 @ a @ ''&reason='' @ r) []])))"

definition approve_next :: "effect list" where
  "approve_next = SnackBarOpen ''Request approved'' # loadRequests"

definition reject_next :: "effect list" where
  "reject_next = SnackBarOpen ''Request rejected'' # loadRequests"

section \<open>Policy resolution and condition evaluation\<close>

text \<open>
  The policy schema (\<^verbatim>\<open>access_policies.txt\<close>) declares what a policy, a role and
  a condition block hold. The service that reads them is not among the sources;
  the two pure operations of its contract, \<^verbatim>\<open>resolveRole\<close> and \<^verbatim>\<open>evaluate\<close>,
  are modelled below from the specification's description of them.
\<close>

subsection \<open>The schema\<close>

datatype error =
    PolicyNotFound
  | RoleNotFound
  | InheritanceCycle
  | ConditionNotSatisfied
  | DuplicateDecision
  | StaleApprovalStep
  | ProvisioningFailed
  | AuditWriteFailed

datatype weekday = monday | tuesday | wednesday | thursday | friday | saturday | sunday

text \<open>
  \<open>start_time\<close> and \<open>end_time\<close> are minutes after midnight (\<^verbatim>\<open>"09:00"\<close> is 540),
  \<open>timezone\<close> is the zone's offset from UTC in minutes (\<^verbatim>\<open>"UTC"\<close> is 0).
\<close>

record time_window =
  start_time :: nat
  end_time :: nat
  timezone :: int
  days_of_week :: "weekday list"

text \<open>An IPv4 block \<^verbatim>\<open>a.b.c.d/len\<close>: the address and the prefix length.\<close>

type_synonym cidr = "32 word \<times> nat"

record condition =
  department :: "string option"
  data_sensitivity :: "string option"
  location :: "string option"
  job_level :: "string option"
  contract_type :: "string option"
  security_clearance :: "string option"
  time_restrictions :: "time_window option"
  ip_restrictions :: "cidr list option"
  mfa_required :: "bool option"
  justification_required :: "bool option"

record inheritance_decl =
  parent_roles :: "string list"
  inherit_permissions :: bool

record role =
  name :: string
  permissions :: "string list"
  conditions :: "condition list"
  inheritance :: "inheritance_decl option"

record policy =
  policy_resource :: string
  resource_type :: "string option"
  roles :: "role list"
  enabled :: bool

subsection \<open>resolveRole\<close>

record ResolvedRole =
  resolved_name :: string
  resolved_permissions :: "string set"
  condition_blocks :: "condition list"

definition find_role :: "role list \<Rightarrow> string \<Rightarrow> role option" where
  "find_role rs n = find (\<lambda>r. name r = n) rs"

text \<open>The first failure of a list of results, or all their values.\<close>

fun sequence :: "('e + 'a) list \<Rightarrow> 'e + 'a list" where
  "sequence [] = Inr []"
| "sequence (x # xs) =
     (case x of
        Inl e \<Rightarrow> Inl e
      | Inr a \<Rightarrow> (case sequence xs of Inl e \<Rightarrow> Inl e | Inr as \<Rightarrow> Inr (a # as)))"

text \<open>
  Modelled from the spec: the traversal behind \<^verbatim>\<open>resolveRole\<close>, which is not in
  the sources. The specification asks for an "explicit graph traversal with a
  visited-set cycle guard": \<open>visited\<close> holds the names on the way from the
  requested role to \<open>n\<close>, and meeting one of them again is the cycle. The
  permission set of a role is "the union of its own permissions and all
  (transitively) inherited parents' permissions when \<^verbatim>\<open>inherit_permissions\<close> is
  true"; the condition blocks of the parents are "appended, never removed". A
  parent name that no role of the policy bears has nothing to contribute: the
  specification gives \<^verbatim>\<open>resolveRole\<close> no failure for it.
\<close>

function expand ::
  "role list \<Rightarrow> string list \<Rightarrow> string \<Rightarrow> error + (string set \<times> condition list)"
where
  "expand rs visited n =
     (if n \<in> set visited then Inl InheritanceCycle
      else case find_role rs n of
             None \<Rightarrow> Inr ({}, [])
           | Some r \<Rightarrow>
               (case inheritance r of
                  None \<Rightarrow> Inr (set (permissions r), conditions r)
                | Some inh \<Rightarrow>
                    (case sequence (map (expand rs (n # visited)) (parent_roles inh)) of
                       Inl e \<Rightarrow> Inl e
                     | Inr ps \<Rightarrow>
                         Inr (set (permissions r) \<union>
                                (if inherit_permissions inh then \<Union> (set (map fst ps)) else {}),
                              conditions r @ concat (map snd ps)))))"
  by pat_completeness auto
termination
proof (relation "measure (\<lambda>(rs, visited, n). card (set (map name rs) - set visited))")
  show "wf (measure (\<lambda>(rs, visited, n). card (set (map name rs) - set visited)))"
    by simp
next
  fix rs :: "role list" and visited :: "string list" and n :: string
    and r :: role and inh :: inheritance_decl and p :: string
  assume fresh: "n \<notin> set visited" and found: "find_role rs n = Some r"
  from found have "n \<in> set (map name rs)"
    by (auto simp: find_role_def find_Some_iff)
  with fresh have "set (map name rs) - set (n # visited) \<subset> set (map name rs) - set visited"
    by auto
  then have "card (set (map name rs) - set (n # visited)) < card (set (map name rs) - set visited)"
    by (intro psubset_card_mono) simp_all
  then show "((rs, n # visited, p), (rs, visited, n))
      \<in> measure (\<lambda>(rs, visited, n). card (set (map name rs) - set visited))"
    by simp
qed

declare expand.simps [simp del]

text \<open>
  Modelled from the spec: the check that rejects "inheritance cycles at
  policy-load time". It walks from every role of the policy.
\<close>

definition has_cycle :: "role list \<Rightarrow> bool" where
  "has_cycle rs = list_ex (\<lambda>r. expand rs [] (name r) = Inl InheritanceCycle) rs"

text \<open>
  Modelled from the spec: \<^verbatim>\<open>resolveRole(policy, requestedRoleName)\<close>, which is not
  in the sources: it "expands inheritance into a flattened permission set and
  flattened condition-block list", "failing with \<^verbatim>\<open>InheritanceCycle\<close> if the
  parent graph has a cycle, and \<^verbatim>\<open>RoleNotFound\<close> if the name is absent".
\<close>

definition resolveRole :: "policy \<Rightarrow> string \<Rightarrow> error + ResolvedRole" where
  "resolveRole p requestedRoleName =
     (if has_cycle (roles p) then Inl InheritanceCycle
      else case find_role (roles p) requestedRoleName of
             None \<Rightarrow> Inl RoleNotFound
           | Some r \<Rightarrow>
               (case expand (roles p) [] requestedRoleName of
                  Inl e \<Rightarrow> Inl e
                | Inr (ps, cs) \<Rightarrow>
                    Inr \<lparr> resolved_name = requestedRoleName,
                          resolved_permissions = ps,
                          condition_blocks = cs \<rparr>))"

text \<open>
  The parent graph of a policy, for stating what \<^verbatim>\<open>resolveRole\<close> promises: an edge
  leads from a role to each name in its \<^verbatim>\<open>parent_roles\<close>. A graph has a cycle
  when some name reaches itself along one edge or more.
\<close>

definition parent_edges :: "role list \<Rightarrow> (string \<times> string) set" where
  "parent_edges rs =
     {(n, p). \<exists>r inh. find_role rs n = Some r \<and> inheritance r = Some inh
                \<and> p \<in> set (parent_roles inh)}"

definition cyclic :: "role list \<Rightarrow> bool" where
  "cyclic rs = (\<exists>n. (n, n) \<in> (parent_edges rs)\<^sup>+)"

definition inherits :: "role \<Rightarrow> bool" where
  "inherits r = (case inheritance r of None \<Rightarrow> False | Some inh \<Rightarrow> inherit_permissions inh)"

subsection \<open>evaluate\<close>

text \<open>
  What the identity source supplies about a request, and the address it comes
  from. The request time is in seconds since 1970-01-01T00:00 UTC, a Thursday.
\<close>

record request_attributes =
  attr_department :: "string option"
  attr_data_sensitivity :: "string option"
  attr_location :: "string option"
  attr_job_level :: "string option"
  attr_contract_type :: "string option"
  attr_security_clearance :: "string option"
  source_ip :: "32 word option"

record evaluation =
  matched :: bool
  matchedBlockIndex :: "nat option"
  requiresMFA :: bool
  requiresJustification :: bool

text \<open>
  Modelled from the spec: how one populated field of a condition block is
  compared with the request; the evaluator is not in the sources. "String
  fields: exact match", also for the ordinal ones ("compared by exact label
  equality, not ordering"); "any unset field is a wildcard".
\<close>

definition field_matches :: "string option \<Rightarrow> string option \<Rightarrow> bool" where
  "field_matches wanted actual = (case wanted of None \<Rightarrow> True | Some v \<Rightarrow> actual = Some v)"

definition minute_of_day :: "int \<Rightarrow> int" where
  "minute_of_day s = (s div 60) mod 1440"

definition weekday_of :: "int \<Rightarrow> weekday" where
  "weekday_of s =
     [thursday, friday, saturday, sunday, monday, tuesday, wednesday]
       ! nat ((s div 86400) mod 7)"

text \<open>
  Modelled from the spec: the time window of a block, "requestTime falls within
  [start,end) in the given timezone and requestTime's weekday is in
  \<^verbatim>\<open>days_of_week\<close>".
\<close>

definition in_window :: "time_window \<Rightarrow> nat \<Rightarrow> bool" where
  "in_window w requestTime =
     (let s = int requestTime + timezone w * 60
      in int (start_time w) \<le> minute_of_day s \<and> minute_of_day s < int (end_time w)
         \<and> weekday_of s \<in> set (days_of_week w))"

text \<open>
  Modelled from the spec: the address test of a block, "source IP is contained in
  at least one CIDR". An address is in a block when the two agree on the first
  \<open>len\<close> bits.
\<close>

definition in_cidr :: "32 word \<Rightarrow> cidr \<Rightarrow> bool" where
  "in_cidr ip c =
     (case c of (base, len) \<Rightarrow>
        len \<le> 32 \<and> drop_bit (32 - len) ip = drop_bit (32 - len) base)"

definition ip_matches :: "cidr list option \<Rightarrow> 32 word option \<Rightarrow> bool" where
  "ip_matches allowed ip =
     (case allowed of
        None \<Rightarrow> True
      | Some cs \<Rightarrow> (case ip of None \<Rightarrow> False | Some a \<Rightarrow> list_ex (in_cidr a) cs))"

text \<open>
  Modelled from the spec: a condition block is "a conjunctive (AND) predicate over
  request attributes". The two flags \<^verbatim>\<open>mfa_required\<close> and
  \<^verbatim>\<open>justification_required\<close> are not compared with anything: they are what
  \<^verbatim>\<open>evaluate\<close> reports as \<^verbatim>\<open>requiresMFA\<close> and \<^verbatim>\<open>requiresJustification\<close>.
\<close>

definition block_matches :: "request_attributes \<Rightarrow> nat \<Rightarrow> condition \<Rightarrow> bool" where
  "block_matches a requestTime b =
     (field_matches (department b) (attr_department a)
      \<and> field_matches (data_sensitivity b) (attr_data_sensitivity a)
      \<and> field_matches (location b) (attr_location a)
      \<and> field_matches (job_level b) (attr_job_level a)
      \<and> field_matches (contract_type b) (attr_contract_type a)
      \<and> field_matches (security_clearance b) (attr_security_clearance a)
      \<and> (case time_restrictions b of None \<Rightarrow> True | Some w \<Rightarrow> in_window w requestTime)
      \<and> ip_matches (ip_restrictions b) (source_ip a))"

text \<open>The search through the blocks, with the index of the block at hand.\<close>

fun first_match :: "('a \<Rightarrow> bool) \<Rightarrow> 'a list \<Rightarrow> nat \<Rightarrow> (nat \<times> 'a) option" where
  "first_match P [] i = None"
| "first_match P (b # bs) i = (if P b then Some (i, b) else first_match P bs (Suc i))"

text \<open>
  Modelled from the spec: \<^verbatim>\<open>evaluate(resolvedRole, requestAttributes, requestTime)\<close>,
  which is not in the sources. It "evaluates each condition block in order;
  returns the first block where every populated field matches"; "if no block
  matches, returns \<^verbatim>\<open>matched=false\<close>"; "a role with zero condition blocks matches
  unconditionally (wildcard role)".
\<close>

definition evaluate :: "ResolvedRole \<Rightarrow> request_attributes \<Rightarrow> nat \<Rightarrow> evaluation" where
  "evaluate resolvedRole requestAttributes requestTime =
     (if condition_blocks resolvedRole = []
      then \<lparr> matched = True, matchedBlockIndex = None,
             requiresMFA = False, requiresJustification = False \<rparr>
      else case first_match (block_matches requestAttributes requestTime)
                  (condition_blocks resolvedRole) 0 of
             None \<Rightarrow> \<lparr> matched = False, matchedBlockIndex = None,
                       requiresMFA = False, requiresJustification = False \<rparr>
           | Some (i, b) \<Rightarrow>
               \<lparr> matched = True, matchedBlockIndex = Some i,
                 requiresMFA = (mfa_required b = Some True),
                 requiresJustification = (justification_required b = Some True) \<rparr>)"

subsection \<open>Example policies\<close>

definition no_conditions :: condition where
  "no_conditions =
     \<lparr> department = None, data_sensitivity = None, location = None, job_level = None,
       contract_type = None, security_clearance = None, time_restrictions = None,
       ip_restrictions = None, mfa_required = None, justification_required = None \<rparr>"

definition nobody :: request_attributes where
  "nobody =
     \<lparr> attr_department = None, attr_data_sensitivity = None, attr_location = None,
       attr_job_level = None, attr_contract_type = None, attr_security_clearance = None,
       source_ip = None \<rparr>"

definition read_only_role :: role where
  "read_only_role =
     \<lparr> name = ''read_only'', permissions = [''SELECT''],
       conditions = [no_conditions\<lparr> department := Some ''sales'' \<rparr>],
       inheritance = None \<rparr>"

definition read_write_role :: role where
  "read_write_role =
     \<lparr> name = ''read_write'', permissions = [''INSERT'', ''UPDATE''],
       conditions = [no_conditions\<lparr> job_level := Some ''manager'', mfa_required := Some True \<rparr>],
       inheritance = Some \<lparr> parent_roles = [''read_only''], inherit_permissions = True \<rparr> \<rparr>"

definition auditor_role :: role where
  "auditor_role =
     \<lparr> name = ''auditor'', permissions = [''AUDIT''], conditions = [],
       inheritance = Some \<lparr> parent_roles = [''read_write''], inherit_permissions = False \<rparr> \<rparr>"

definition sales_policy :: policy where
  "sales_policy =
     \<lparr> policy_resource = ''sales-db'', resource_type = Some ''cloudsql'',
       roles = [read_only_role, read_write_role, auditor_role], enabled = True \<rparr>"

text \<open>A policy whose two roles name each other as parent.\<close>

definition looping_policy :: policy where
  "looping_policy =
     \<lparr> policy_resource = ''finance-db'', resource_type = None,
       roles = [ \<lparr> name = ''a'', permissions = [''SELECT''], conditions = [],
                   inheritance = Some \<lparr> parent_roles = [''b''], inherit_permissions = True \<rparr> \<rparr>,
                 \<lparr> name = ''b'', permissions = [''DELETE''], conditions = [],
                   inheritance = Some \<lparr> parent_roles = [''a''], inherit_permissions = True \<rparr> \<rparr>,
                 \<lparr> name = ''c'', permissions = [''AUDIT''], conditions = [],
                   inheritance = None \<rparr> ],
       enabled = True \<rparr>"

section \<open>What the form component sends\<close>

text \<open>
  The form is invalid exactly when a control is empty, the e-mail address fails
  the framework's pattern, or the justification has fewer than ten characters.
\<close>

lemma valid_iff:
  "valid EMAIL_REGEXP f \<longleftrightarrow>
     \<not> (isEmptyInputValue (requesterEmail f) \<or> isEmptyInputValue (resource f)
        \<or> isEmptyInputValue (serviceType f) \<or> isEmptyInputValue (accessLevel f)
        \<or> isEmptyInputValue (requestedDuration f) \<or> isEmptyInputValue (justification f)
        \<or> (\<exists>s. requesterEmail f = Some s \<and> \<not> EMAIL_REGEXP s)
        \<or> (\<exists>s. justification f = Some s \<and> length s < 10))"
  by (auto simp: valid_def required_def email_def minLength_def isEmptyInputValue_def
           split: option.splits if_splits)

text \<open>
  C8: \<^verbatim>\<open>onSubmit\<close> posts only when the form is valid. In every state of the form
  in which one of the six controls is empty, the requester's e-mail address is
  malformed, or the justification is shorter than ten characters, \<^verbatim>\<open>onSubmit\<close>
  performs no HTTP request and leaves the component as it was; \<^verbatim>\<open>isSubmitting\<close>
  in particular keeps its value, so it stays false where it was false.
\<close>

theorem onSubmit_invalid_no_request:
  assumes "isEmptyInputValue (requesterEmail (accessRequestForm c))
         \<or> isEmptyInputValue (resource (accessRequestForm c))
         \<or> isEmptyInputValue (serviceType (accessRequestForm c))
         \<or> isEmptyInputValue (accessLevel (accessRequestForm c))
         \<or> isEmptyInputValue (requestedDuration (accessRequestForm c))
         \<or> isEmptyInputValue (justification (accessRequestForm c))
         \<or> (\<exists>s. requesterEmail (accessRequestForm c) = Some s \<and> \<not> EMAIL_REGEXP s)
         \<or> (\<exists>s. justification (accessRequestForm c) = Some s \<and> length s < 10)"
  shows "snd (onSubmit EMAIL_REGEXP c) = []
       \<and> fst (onSubmit EMAIL_REGEXP c) = c
       \<and> isSubmitting (fst (onSubmit EMAIL_REGEXP c)) = isSubmitting c"
proof -
  from assms have "\<not> valid EMAIL_REGEXP (accessRequestForm c)"
    by (simp only: valid_iff not_not)
  then show ?thesis by (simp add: onSubmit_def)
qed

theorem onSubmit_invalid_no_request_witness:
  "isEmptyInputValue (requesterEmail (accessRequestForm (ngOnInit constructor)))
   \<and> snd (onSubmit has_at (ngOnInit constructor)) = []
   \<and> \<not> isSubmitting (fst (onSubmit has_at (ngOnInit constructor)))
   \<and> (\<exists>s. justification (accessRequestForm hasty_form) = Some s \<and> length s < 10)
   \<and> snd (onSubmit has_at hasty_form) = []
   \<and> \<not> isSubmitting (fst (onSubmit has_at hasty_form))"
proof -
  have empty: "isEmptyInputValue (requesterEmail (accessRequestForm (ngOnInit constructor)))"
    by (simp add: ngOnInit_def constructor_def constructor_form_def patchDefaults_def
          isEmptyInputValue_def)
  have short: "\<exists>s. justification (accessRequestForm hasty_form) = Some s \<and> length s < 10"
    by (simp add: hasty_form_def filled_form_def)
  have idle: "\<not> isSubmitting (ngOnInit constructor)" "\<not> isSubmitting hasty_form"
    by (simp_all add: ngOnInit_def constructor_def hasty_form_def filled_form_def)
  from empty onSubmit_invalid_no_request [of "ngOnInit constructor" has_at]
  have a: "snd (onSubmit has_at (ngOnInit constructor)) = []"
    "isSubmitting (fst (onSubmit has_at (ngOnInit constructor)))
       = isSubmitting (ngOnInit constructor)"
    by blast+
  from short onSubmit_invalid_no_request [of hasty_form has_at]
  have b: "snd (onSubmit has_at hasty_form) = []"
    "isSubmitting (fst (onSubmit has_at hasty_form)) = isSubmitting hasty_form"
    by blast+
  from empty short idle a b show ?thesis by simp
qed

text \<open>
  C10: for every valid state of the form, \<^verbatim>\<open>onSubmit\<close> posts one request whose
  body has exactly the six keys \<^verbatim>\<open>requester_email\<close>, \<^verbatim>\<open>resource\<close>,
  \<^verbatim>\<open>service_type\<close>, \<^verbatim>\<open>access_level\<close>, \<^verbatim>\<open>requested_duration\<close> and
  \<^verbatim>\<open>justification\<close>, each with the value of its control. The body has no other
  key: the client adds neither a submission time nor a policy or role snapshot.
\<close>

theorem onSubmit_payload:
  assumes "valid EMAIL_REGEXP (accessRequestForm c)"
  shows "snd (onSubmit EMAIL_REGEXP c) =
           [HttpPost ''http://localhost:8000/api/access-requests''
              [ (''requester_email'', requesterEmail (accessRequestForm c)),
                (''resource'', resource (accessRequestForm c)),
                (''service_type'', serviceType (accessRequestForm c)),
                (''access_level'', accessLevel (accessRequestForm c)),
                (''requested_duration'', requestedDuration (accessRequestForm c)),
                (''justification'', justification (accessRequestForm c)) ]]"
  using assms by (simp add: onSubmit_def payload_def)

theorem onSubmit_payload_witness:
  "valid has_at (accessRequestForm filled_form)
   \<and> snd (onSubmit has_at filled_form) =
       [HttpPost ''http://localhost:8000/api/access-requests''
          [ (''requester_email'', Some ''alice@company.com''),
            (''resource'', Some ''sales-db''),
            (''service_type'', Some ''cloudsql''),
            (''access_level'', Some ''read_only''),
            (''requested_duration'', Some ''30d''),
            (''justification'', Some ''quarterly sales report'') ]]"
proof -
  have ok: "valid has_at (accessRequestForm filled_form)"
    by (simp add: valid_def required_def email_def minLength_def isEmptyInputValue_def
          filled_form_def has_at_def)
  from onSubmit_payload [of has_at filled_form, OF ok]
  have "snd (onSubmit has_at filled_form) =
       [HttpPost ''http://localhost:8000/api/access-requests''
          [ (''requester_email'', Some ''alice@company.com''),
            (''resource'', Some ''sales-db''),
            (''service_type'', Some ''cloudsql''),
            (''access_level'', Some ''read_only''),
            (''requested_duration'', Some ''30d''),
            (''justification'', Some ''quarterly sales report'') ]]"
    by (simp add: filled_form_def)
  with ok show ?thesis by simp
qed

section \<open>What the list component sends\<close>

lemma falsy_iff: "falsy v \<longleftrightarrow> v = None \<or> v = Some []"
  by (cases v) (auto simp: falsy_def)

text \<open>
  C9: \<^verbatim>\<open>approve\<close> and \<^verbatim>\<open>reject\<close> of the list component send their HTTP PUT only
  when the e-mail address asked for is not empty, and \<^verbatim>\<open>reject\<close> only when a
  reason that is not empty was given as well. When a prompt is cancelled or
  answered with nothing, the method ends with no request sent (after a
  cancelled first prompt \<^verbatim>\<open>reject\<close> does not even ask for the reason). So every
  rejection that reaches the server names who rejected and why: its URL is built
  from that address and that reason.
\<close>

theorem approve_reject_only_with_actor_and_reason:
  "(list_ex is_http (approve enc req_id approver_email) \<longrightarrow>
      (\<exists>e a. approver_email = Some e \<and> e \<noteq> [] \<and> enc e = Some a
         \<and> approve enc req_id approver_email =
             [Prompt ''Enter your email to approve:'',
              HttpPut (''/api/access-requests/'' @ req_id @ ''/approve?approver_email='' @ a)
                []]))
   \<and> (list_ex is_http (reject enc req_id rejector_email reason) \<longrightarrow>
      (\<exists>e a m r. rejector_email = Some e \<and> e \<noteq> [] \<and> enc e = Some a
         \<and> reason = Some m \<and> m \<noteq> [] \<and> enc m = Some r
         \<and> reject enc req_id rejector_email reason =
             [Prompt ''Enter your email to reject:'', Prompt ''Enter rejection reason:'',
              HttpPut (''/api/access-requests/'' @ req_id @ ''/reject?rejector_email='' @ a
                       @ ''&reason='' @ r) []]))
   \<and> (falsy approver_email \<longrightarrow>
        approve enc req_id approver_email = [Prompt ''Enter your email to approve:''])
   \<and> (falsy rejector_email \<longrightarrow>
        reject enc req_id rejector_email reason = [Prompt ''Enter your email to reject:''])
   \<and> (\<not> falsy rejector_email \<and> falsy reason \<longrightarrow>
        reject enc req_id rejector_email reason =
          [Prompt ''Enter your email to reject:'', Prompt ''Enter rejection reason:''])"
  by (auto simp: approve_def reject_def falsy_iff split: option.splits)

theorem approve_reject_only_with_actor_and_reason_witness:
  "list_ex is_http (approve Some ''7'' (Some ''a@b.c''))
   \<and> approve Some ''7'' (Some ''a@b.c'') =
        [Prompt ''Enter your email to approve:'',
         HttpPut ''/api/access-requests/7/approve?approver_email=a@b.c'' []]
   \<and> list_ex is_http (reject Some ''7'' (Some ''a@b.c'') (Some ''no''))
   \<and> reject Some ''7'' (Some ''a@b.c'') (Some ''no'') =
        [Prompt ''Enter your email to reject:'', Prompt ''Enter rejection reason:'',
         HttpPut ''/api/access-requests/7/reject?rejector_email=a@b.c&reason=no'' []]
   \<and> falsy None \<and> approve Some ''7'' None = [Prompt ''Enter your email to approve:'']
   \<and> falsy (Some []) \<and> reject Some ''7'' (Some []) (Some ''no'') = [Prompt ''Enter your email to reject:'']
   \<and> \<not> falsy (Some ''a@b.c'')
   \<and> reject Some ''7'' (Some ''a@b.c'') None =
        [Prompt ''Enter your email to reject:'', Prompt ''Enter rejection reason:'']"
proof -
  have h1: "list_ex is_http (approve Some ''7'' (Some ''a@b.c''))"
    by (simp add: approve_def falsy_def)
  have h2: "list_ex is_http (reject Some ''7'' (Some ''a@b.c'') (Some ''no''))"
    by (simp add: reject_def falsy_def)
  have h3: "falsy None" "falsy (Some [])" "\<not> falsy (Some ''a@b.c'')"
    by (simp_all add: falsy_def)
  note t1 = approve_reject_only_with_actor_and_reason
              [of Some "''7''" "Some ''a@b.c''" "Some ''a@b.c''" "Some ''no''"]
  note t2 = approve_reject_only_with_actor_and_reason
              [of Some "''7''" None "Some []" "Some ''no''"]
  note t3 = approve_reject_only_with_actor_and_reason
              [of Some "''7''" None "Some ''a@b.c''" None]
  show ?thesis using t1 t2 t3 h1 h2 h3 by auto
qed

section \<open>Role resolution\<close>

lemma sequence_map_Inr: "sequence (map Inr ys) = Inr ys"
  by (induction ys) simp_all

lemma sequence_Inr_D: "sequence xs = Inr ys \<Longrightarrow> xs = map Inr ys"
  by (induction xs arbitrary: ys) (auto split: sum.splits)

lemma sequence_Inr_iff: "sequence xs = Inr ys \<longleftrightarrow> xs = map Inr ys"
  using sequence_map_Inr sequence_Inr_D by metis

lemma sequence_all_Inr:
  assumes "\<And>x. x \<in> set xs \<Longrightarrow> \<exists>a. x = Inr a"
  shows "\<exists>ys. sequence xs = Inr ys"
  using assms
proof (induction xs)
  case Nil
  then show ?case by simp
next
  case (Cons x xs)
  then obtain a where "x = Inr a" by auto
  moreover from Cons obtain ys where "sequence xs = Inr ys" by auto
  ultimately show ?case by simp
qed

lemma sequence_Inl_mem:
  "sequence xs = Inl e \<Longrightarrow> Inl e \<in> set xs"
  by (induction xs) (auto split: sum.splits)

lemma expand_visited: "n \<in> set visited \<Longrightarrow> expand rs visited n = Inl InheritanceCycle"
  by (simp add: expand.simps)

lemma expand_error: "expand rs visited n = Inl e \<Longrightarrow> e = InheritanceCycle"
proof (induction rs visited n rule: expand.induct)
  case (1 rs visited n)
  show ?case
  proof (cases "n \<in> set visited")
    case True
    with "1.prems" show ?thesis by (simp add: expand.simps)
  next
    case False
    with "1.prems" obtain r inh where r: "find_role rs n = Some r" "inheritance r = Some inh"
      and s: "sequence (map (expand rs (n # visited)) (parent_roles inh)) = Inl e"
      by (auto simp: expand.simps[of rs visited n] split: option.splits sum.splits)
    from sequence_Inl_mem[OF s] obtain p where "p \<in> set (parent_roles inh)"
      "expand rs (n # visited) p = Inl e" by auto
    with "1.IH"[OF False r] show ?thesis by simp
  qed
qed

lemma expand_parent:
  assumes "expand rs visited n = Inr res" and "(n, p) \<in> parent_edges rs"
  shows "\<exists>res'. expand rs (n # visited) p = Inr res'"
proof -
  from assms(2) obtain r inh where r: "find_role rs n = Some r" "inheritance r = Some inh"
    and p: "p \<in> set (parent_roles inh)"
    by (auto simp: parent_edges_def)
  from assms(1) r obtain ps where
    "sequence (map (expand rs (n # visited)) (parent_roles inh)) = Inr ps"
    by (auto simp: expand.simps[of rs visited n] split: if_splits sum.splits)
  then have "map (expand rs (n # visited)) (parent_roles inh) = map Inr ps"
    by (simp add: sequence_Inr_iff)
  then have "expand rs (n # visited) p \<in> set (map Inr ps)"
    using p by (metis image_eqI list.set_map)
  then show ?thesis by auto
qed

lemma expand_reach:
  assumes "(n, m) \<in> (parent_edges rs)\<^sup>+" and "expand rs visited n = Inr res"
  shows "\<exists>visited' res'. n \<in> set visited' \<and> expand rs visited' m = Inr res'"
  using assms
proof (induction arbitrary: rule: trancl_induct)
  case (base y)
  from expand_parent[OF base(2) base(1)] show ?case
    by (metis list.set_intros(1))
next
  case (step y z)
  from step.IH[OF step.prems] obtain v r' where v: "n \<in> set v" "expand rs v y = Inr r'"
    by blast
  from expand_parent[OF v(2) step.hyps(2)] obtain r'' where "expand rs (y # v) z = Inr r''"
    by blast
  with v(1) show ?case by (metis list.set_intros(2))
qed

lemma cyclic_has_cycle:
  assumes "cyclic rs"
  shows "has_cycle rs"
proof -
  from assms obtain c where c: "(c, c) \<in> (parent_edges rs)\<^sup>+"
    by (auto simp: cyclic_def)
  then obtain d where "(c, d) \<in> parent_edges rs"
    by (meson tranclD)
  then obtain r where r: "find_role rs c = Some r"
    by (auto simp: parent_edges_def)
  then have rin: "r \<in> set rs" "name r = c"
    by (auto simp: find_role_def find_Some_iff)
  have "expand rs [] c = Inl InheritanceCycle"
  proof (cases "expand rs [] c")
    case (Inl e)
    then show ?thesis using expand_error by blast
  next
    case (Inr res)
    from expand_reach[OF c Inr] obtain v res' where "c \<in> set v" "expand rs v c = Inr res'"
      by blast
    then show ?thesis by (simp add: expand_visited)
  qed
  with rin show ?thesis
    by (auto simp: has_cycle_def list_ex_iff)
qed

lemma acyclic_expand:
  assumes "\<not> cyclic rs" and "\<And>v. v \<in> set visited \<Longrightarrow> (v, n) \<in> (parent_edges rs)\<^sup>+"
  shows "\<exists>res. expand rs visited n = Inr res"
  using assms
proof (induction rs visited n rule: expand.induct)
  case (1 rs visited n)
  have fresh: "n \<notin> set visited"
  proof
    assume "n \<in> set visited"
    then have "(n, n) \<in> (parent_edges rs)\<^sup>+" by (rule "1.prems")
    with "1.prems"(1) show False by (auto simp: cyclic_def)
  qed
  show ?case
  proof (cases "find_role rs n")
    case None
    with fresh show ?thesis by (simp add: expand.simps[of rs visited n])
  next
    case (Some r)
    show ?thesis
    proof (cases "inheritance r")
      case None
      with fresh Some show ?thesis by (simp add: expand.simps[of rs visited n])
    next
      case inh: (Some inh)
      have "\<exists>a. x = Inr a" if "x \<in> set (map (expand rs (n # visited)) (parent_roles inh))" for x
      proof -
        from that obtain p where p: "p \<in> set (parent_roles inh)" "x = expand rs (n # visited) p"
          by auto
        have edge: "(n, p) \<in> parent_edges rs"
          using Some inh p(1) by (auto simp: parent_edges_def)
        have "(v, p) \<in> (parent_edges rs)\<^sup>+" if "v \<in> set (n # visited)" for v
        proof (cases "v = n")
          case True
          with edge show ?thesis by auto
        next
          case False
          with that have "(v, n) \<in> (parent_edges rs)\<^sup>+" by (auto intro: "1.prems"(2))
          with edge show ?thesis by (meson trancl.trancl_into_trancl)
        qed
        with "1.IH"[OF fresh Some inh p(1) "1.prems"(1)] p(2) show ?thesis by auto
      qed
      then obtain ps where "sequence (map (expand rs (n # visited)) (parent_roles inh)) = Inr ps"
        using sequence_all_Inr by blast
      with fresh Some inh show ?thesis by (simp add: expand.simps[of rs visited n])
    qed
  qed
qed

lemma acyclic_no_cycle: "\<not> cyclic rs \<Longrightarrow> \<not> has_cycle rs"
proof
  assume a: "\<not> cyclic rs" and "has_cycle rs"
  then obtain r :: role where "expand rs [] (name r) = Inl InheritanceCycle"
    unfolding has_cycle_def list_ex_iff by blast
  moreover from acyclic_expand[OF a, of "[]" "name r"] obtain res where
    "expand rs [] (name r) = Inr res" by auto
  ultimately show False by simp
qed

lemma has_cycle_iff: "has_cycle rs \<longleftrightarrow> cyclic rs"
  using acyclic_no_cycle cyclic_has_cycle by blast

lemma expand_permissions:
  assumes "expand rs visited n = Inr (ps, cs)" and "find_role rs n = Some r"
  shows "(inherits r \<longrightarrow> set (permissions r) \<subseteq> ps)
       \<and> (\<not> inherits r \<longrightarrow> ps = set (permissions r))"
  using assms
  by (auto simp: expand.simps[of rs visited n] inherits_def
           split: if_splits option.splits sum.splits)

text \<open>
  Where the role names of a policy are distinct, as the schema asks ("name unique
  within policy"), the edges are those of the declarations themselves.
\<close>

lemma parent_edges_distinct:
  assumes "distinct (map name rs)"
  shows "parent_edges rs =
           {(name r, p) | r inh p. r \<in> set rs \<and> inheritance r = Some inh
                                  \<and> p \<in> set (parent_roles inh)}"
proof -
  have "find_role rs n = Some r \<longleftrightarrow> r \<in> set rs \<and> name r = n" for n r
  proof
    assume "find_role rs n = Some r"
    then show "r \<in> set rs \<and> name r = n"
      by (auto simp: find_role_def find_Some_iff)
  next
    assume r: "r \<in> set rs \<and> name r = n"
    then obtain i where i: "i < length rs" "rs ! i = r"
      by (auto simp: in_set_conv_nth)
    have "name (rs ! j) \<noteq> n" if "j < i" for j
    proof
      assume "name (rs ! j) = n"
      with r i that have eq: "map name rs ! j = map name rs ! i"
        and lt: "j < length (map name rs)" "i < length (map name rs)" "j \<noteq> i"
        by auto
      from assms lt have "map name rs ! j \<noteq> map name rs ! i"
        unfolding distinct_conv_nth by blast
      with eq show False by contradiction
    qed
    with i r show "find_role rs n = Some r"
      by (auto simp: find_role_def find_Some_iff)
  qed
  then show ?thesis
    by (auto simp: parent_edges_def)
qed

text \<open>
  C3: for every policy whose parent graph has no cycle and every role name the
  policy declares, \<^verbatim>\<open>resolveRole\<close> returns a resolved role; its permission set
  contains the role's own permissions when the role inherits
  (\<^verbatim>\<open>inherit_permissions\<close> true), and is exactly the role's own permissions when it
  does not. When the parent graph has a cycle, \<^verbatim>\<open>resolveRole\<close> fails with
  \<^verbatim>\<open>InheritanceCycle\<close>, whatever role is asked for.
\<close>

theorem resolveRole_flattens_or_rejects_cycle:
  "(\<not> cyclic (roles p) \<and> find_role (roles p) n = Some r \<longrightarrow>
      (\<exists>rr. resolveRole p n = Inr rr
         \<and> (inherits r \<longrightarrow> set (permissions r) \<subseteq> resolved_permissions rr)
         \<and> (\<not> inherits r \<longrightarrow> resolved_permissions rr = set (permissions r))))
   \<and> (cyclic (roles p) \<longrightarrow> resolveRole p n = Inl InheritanceCycle)"
proof (intro conjI impI)
  assume "cyclic (roles p)"
  then show "resolveRole p n = Inl InheritanceCycle"
    by (simp add: resolveRole_def has_cycle_iff)
next
  assume a: "\<not> cyclic (roles p) \<and> find_role (roles p) n = Some r"
  then obtain ps cs where e: "expand (roles p) [] n = Inr (ps, cs)"
    using acyclic_expand[of "roles p" "[]" n] by auto
  let ?rr = "\<lparr> resolved_name = n, resolved_permissions = ps, condition_blocks = cs \<rparr>"
  from a e have "resolveRole p n = Inr ?rr"
    by (simp add: resolveRole_def has_cycle_iff)
  moreover from expand_permissions[OF e] a
  have "(inherits r \<longrightarrow> set (permissions r) \<subseteq> resolved_permissions ?rr)
      \<and> (\<not> inherits r \<longrightarrow> resolved_permissions ?rr = set (permissions r))"
    by simp
  ultimately show "\<exists>rr. resolveRole p n = Inr rr
         \<and> (inherits r \<longrightarrow> set (permissions r) \<subseteq> resolved_permissions rr)
         \<and> (\<not> inherits r \<longrightarrow> resolved_permissions rr = set (permissions r))"
    by blast
qed

lemma sales_policy_acyclic: "\<not> has_cycle (roles sales_policy)"
  by (simp add: has_cycle_def sales_policy_def read_only_role_def read_write_role_def
        auditor_role_def expand.simps find_role_def)

lemma looping_policy_cycle: "has_cycle (roles looping_policy)"
  by (simp add: has_cycle_def looping_policy_def expand.simps find_role_def)

theorem resolveRole_flattens_or_rejects_cycle_witness:
  "\<not> cyclic (roles sales_policy)
   \<and> find_role (roles sales_policy) ''read_write'' = Some read_write_role
   \<and> inherits read_write_role
   \<and> (\<exists>rr. resolveRole sales_policy ''read_write'' = Inr rr
         \<and> set (permissions read_write_role) \<subseteq> resolved_permissions rr)
   \<and> find_role (roles sales_policy) ''auditor'' = Some auditor_role
   \<and> \<not> inherits auditor_role
   \<and> (\<exists>rr. resolveRole sales_policy ''auditor'' = Inr rr
         \<and> resolved_permissions rr = set (permissions auditor_role))
   \<and> cyclic (roles looping_policy)
   \<and> resolveRole looping_policy ''c'' = Inl InheritanceCycle"
proof -
  have acyc: "\<not> cyclic (roles sales_policy)"
    using sales_policy_acyclic by (simp add: has_cycle_iff)
  have cyc: "cyclic (roles looping_policy)"
    using looping_policy_cycle by (simp add: has_cycle_iff)
  have rw: "find_role (roles sales_policy) ''read_write'' = Some read_write_role"
    by (simp add: find_role_def sales_policy_def read_only_role_def read_write_role_def)
  have au: "find_role (roles sales_policy) ''auditor'' = Some auditor_role"
    by (simp add: find_role_def sales_policy_def read_only_role_def read_write_role_def
          auditor_role_def)
  have inh: "inherits read_write_role" "\<not> inherits auditor_role"
    by (simp_all add: inherits_def read_write_role_def auditor_role_def)
  note t1 = resolveRole_flattens_or_rejects_cycle
              [of sales_policy "''read_write''" read_write_role]
  note t2 = resolveRole_flattens_or_rejects_cycle
              [of sales_policy "''auditor''" auditor_role]
  note t3 = resolveRole_flattens_or_rejects_cycle [of looping_policy "''c''"]
  from t1 acyc rw inh(1)
  have r1: "\<exists>rr. resolveRole sales_policy ''read_write'' = Inr rr
         \<and> set (permissions read_write_role) \<subseteq> resolved_permissions rr"
    by blast
  from t2 acyc au inh(2)
  have r2: "\<exists>rr. resolveRole sales_policy ''auditor'' = Inr rr
         \<and> resolved_permissions rr = set (permissions auditor_role)"
    by blast
  from t3 cyc have r3: "resolveRole looping_policy ''c'' = Inl InheritanceCycle"
    by blast
  from acyc rw inh r1 au r2 cyc r3 show ?thesis by blast
qed

section \<open>Condition evaluation\<close>

lemma first_match_None: "first_match P bs i = None \<longleftrightarrow> (\<forall>b \<in> set bs. \<not> P b)"
  by (induction bs arbitrary: i) auto

lemma first_match_Some:
  "first_match P bs i = Some (k, b) \<longleftrightarrow>
     (i \<le> k \<and> k - i < length bs \<and> b = bs ! (k - i) \<and> P b \<and> (\<forall>j < k - i. \<not> P (bs ! j)))"
proof (induction bs arbitrary: i)
  case Nil
  then show ?case by simp
next
  case (Cons x xs)
  show ?case
  proof (cases "P x")
    case True
    then show ?thesis by (cases "k - i") auto
  next
    case False
    have "(Suc i \<le> k \<and> k - Suc i < length xs \<and> b = xs ! (k - Suc i) \<and> P b
            \<and> (\<forall>j < k - Suc i. \<not> P (xs ! j)))
        \<longleftrightarrow> (i \<le> k \<and> k - i < length (x # xs) \<and> b = (x # xs) ! (k - i) \<and> P b
            \<and> (\<forall>j < k - i. \<not> P ((x # xs) ! j)))" (is "?L \<longleftrightarrow> ?R")
    proof
      assume l: ?L
      then have ki: "k - i = Suc (k - Suc i)" by arith
      have "\<not> P ((x # xs) ! j)" if "j < k - i" for j
        using that l False ki by (cases j) auto
      with l ki show ?R by auto
    next
      assume r: ?R
      with False have "k - i \<noteq> 0" by (metis nth_Cons_0)
      then have ki: "k - i = Suc (k - Suc i)" by arith
      have "\<not> P (xs ! j)" if "j < k - Suc i" for j
      proof -
        from that ki have "Suc j < k - i" by arith
        with r have "\<not> P ((x # xs) ! Suc j)" by blast
        then show ?thesis by simp
      qed
      with r ki show ?L by auto
    qed
    with False Cons.IH[of "Suc i"] show ?thesis by simp
  qed
qed

lemma field_matches_iff:
  "field_matches wanted actual \<longleftrightarrow> (\<forall>v. wanted = Some v \<longrightarrow> actual = Some v)"
  by (cases wanted) (auto simp: field_matches_def)

lemma ip_matches_iff:
  "ip_matches allowed ip \<longleftrightarrow>
     (\<forall>cs. allowed = Some cs \<longrightarrow> (\<exists>addr c. ip = Some addr \<and> c \<in> set cs \<and> in_cidr addr c))"
  by (cases allowed; cases ip) (auto simp: ip_matches_def list_ex_iff)

lemma block_matches_iff:
  "block_matches a t b \<longleftrightarrow>
       ((\<forall>v. department b = Some v \<longrightarrow> attr_department a = Some v)
      \<and> (\<forall>v. data_sensitivity b = Some v \<longrightarrow> attr_data_sensitivity a = Some v)
      \<and> (\<forall>v. location b = Some v \<longrightarrow> attr_location a = Some v)
      \<and> (\<forall>v. job_level b = Some v \<longrightarrow> attr_job_level a = Some v)
      \<and> (\<forall>v. contract_type b = Some v \<longrightarrow> attr_contract_type a = Some v)
      \<and> (\<forall>v. security_clearance b = Some v \<longrightarrow> attr_security_clearance a = Some v)
      \<and> (\<forall>w. time_restrictions b = Some w \<longrightarrow> in_window w t)
      \<and> (\<forall>cs. ip_restrictions b = Some cs \<longrightarrow>
            (\<exists>addr c. source_ip a = Some addr \<and> c \<in> set cs \<and> in_cidr addr c)))"
  unfolding block_matches_def field_matches_iff ip_matches_iff
  by (cases "time_restrictions b") simp_all

text \<open>
  C4: for every resolved role, every set of request attributes and every request
  time, \<^verbatim>\<open>evaluate\<close> reports the first condition block, in the order the blocks
  are declared, in which every populated field matches the request (a field left
  unset matches everything); it reports \<^verbatim>\<open>matched = false\<close> when the role has
  blocks and none of them matches; and it reports \<^verbatim>\<open>matched = true\<close> for a role
  with no condition block at all.
\<close>

theorem evaluate_first_matching_block:
  "(condition_blocks rr = [] \<longrightarrow>
       matched (evaluate rr a t) \<and> matchedBlockIndex (evaluate rr a t) = None)
   \<and> (condition_blocks rr \<noteq> [] \<longrightarrow>
       (matched (evaluate rr a t) \<longleftrightarrow>
          (\<exists>i < length (condition_blocks rr). block_matches a t (condition_blocks rr ! i)))
       \<and> (\<forall>i. matchedBlockIndex (evaluate rr a t) = Some i \<longleftrightarrow>
              (i < length (condition_blocks rr) \<and> block_matches a t (condition_blocks rr ! i)
               \<and> (\<forall>j < i. \<not> block_matches a t (condition_blocks rr ! j)))))
   \<and> (block_matches a t b \<longleftrightarrow>
       ((\<forall>v. department b = Some v \<longrightarrow> attr_department a = Some v)
      \<and> (\<forall>v. data_sensitivity b = Some v \<longrightarrow> attr_data_sensitivity a = Some v)
      \<and> (\<forall>v. location b = Some v \<longrightarrow> attr_location a = Some v)
      \<and> (\<forall>v. job_level b = Some v \<longrightarrow> attr_job_level a = Some v)
      \<and> (\<forall>v. contract_type b = Some v \<longrightarrow> attr_contract_type a = Some v)
      \<and> (\<forall>v. security_clearance b = Some v \<longrightarrow> attr_security_clearance a = Some v)
      \<and> (\<forall>w. time_restrictions b = Some w \<longrightarrow> in_window w t)
      \<and> (\<forall>cs. ip_restrictions b = Some cs \<longrightarrow>
            (\<exists>addr c. source_ip a = Some addr \<and> c \<in> set cs \<and> in_cidr addr c))))"
proof (intro conjI impI)
  assume "condition_blocks rr = []"
  then show "matched (evaluate rr a t)" "matchedBlockIndex (evaluate rr a t) = None"
    by (simp_all add: evaluate_def)
next
  let ?P = "block_matches a t" and ?bs = "condition_blocks rr"
  assume ne: "?bs \<noteq> []"
  show "matched (evaluate rr a t) \<longleftrightarrow> (\<exists>i < length ?bs. ?P (?bs ! i))"
  proof (cases "first_match ?P ?bs 0")
    case None
    then have "\<forall>b \<in> set ?bs. \<not> ?P b" by (simp add: first_match_None)
    then have "\<not> (\<exists>i < length ?bs. ?P (?bs ! i))" by auto
    with None ne show ?thesis by (simp add: evaluate_def)
  next
    case (Some kb)
    obtain k b where kb: "kb = (k, b)" by (cases kb)
    with Some have "k < length ?bs" "?P (?bs ! k)" by (auto simp: first_match_Some)
    with Some kb ne show ?thesis by (auto simp: evaluate_def)
  qed
  show "\<forall>i. matchedBlockIndex (evaluate rr a t) = Some i \<longleftrightarrow>
          (i < length ?bs \<and> ?P (?bs ! i) \<and> (\<forall>j < i. \<not> ?P (?bs ! j)))"
  proof
    fix i
    have "matchedBlockIndex (evaluate rr a t) = Some i \<longleftrightarrow> first_match ?P ?bs 0 = Some (i, ?bs ! i)"
    proof (cases "first_match ?P ?bs 0")
      case None
      with ne show ?thesis by (simp add: evaluate_def)
    next
      case (Some kb)
      obtain k b where kb: "kb = (k, b)" by (cases kb)
      with Some have "b = ?bs ! k" by (simp add: first_match_Some)
      with Some kb ne show ?thesis by (auto simp: evaluate_def)
    qed
    then show "matchedBlockIndex (evaluate rr a t) = Some i \<longleftrightarrow>
          (i < length ?bs \<and> ?P (?bs ! i) \<and> (\<forall>j < i. \<not> ?P (?bs ! j)))"
      by (simp add: first_match_Some)
  qed
next
  show "block_matches a t b \<longleftrightarrow>
       ((\<forall>v. department b = Some v \<longrightarrow> attr_department a = Some v)
      \<and> (\<forall>v. data_sensitivity b = Some v \<longrightarrow> attr_data_sensitivity a = Some v)
      \<and> (\<forall>v. location b = Some v \<longrightarrow> attr_location a = Some v)
      \<and> (\<forall>v. job_level b = Some v \<longrightarrow> attr_job_level a = Some v)
      \<and> (\<forall>v. contract_type b = Some v \<longrightarrow> attr_contract_type a = Some v)
      \<and> (\<forall>v. security_clearance b = Some v \<longrightarrow> attr_security_clearance a = Some v)
      \<and> (\<forall>w. time_restrictions b = Some w \<longrightarrow> in_window w t)
      \<and> (\<forall>cs. ip_restrictions b = Some cs \<longrightarrow>
            (\<exists>addr c. source_ip a = Some addr \<and> c \<in> set cs \<and> in_cidr addr c)))"
    by (rule block_matches_iff)
qed

theorem evaluate_first_matching_block_witness:
  "condition_blocks
      \<lparr> resolved_name = ''read_write'', resolved_permissions = {''INSERT''},
        condition_blocks =
          [ no_conditions\<lparr> department := Some ''sales'' \<rparr>,
            no_conditions\<lparr> job_level := Some ''manager'', mfa_required := Some True \<rparr> ] \<rparr> \<noteq> []
   \<and> matched (evaluate
        \<lparr> resolved_name = ''read_write'', resolved_permissions = {''INSERT''},
          condition_blocks =
            [ no_conditions\<lparr> department := Some ''sales'' \<rparr>,
              no_conditions\<lparr> job_level := Some ''manager'', mfa_required := Some True \<rparr> ] \<rparr>
        (nobody\<lparr> attr_job_level := Some ''manager'' \<rparr>) 0)
   \<and> matchedBlockIndex (evaluate
        \<lparr> resolved_name = ''read_write'', resolved_permissions = {''INSERT''},
          condition_blocks =
            [ no_conditions\<lparr> department := Some ''sales'' \<rparr>,
              no_conditions\<lparr> job_level := Some ''manager'', mfa_required := Some True \<rparr> ] \<rparr>
        (nobody\<lparr> attr_job_level := Some ''manager'' \<rparr>) 0) = Some 1
   \<and> \<not> matched (evaluate
        \<lparr> resolved_name = ''read_write'', resolved_permissions = {''INSERT''},
          condition_blocks =
            [ no_conditions\<lparr> department := Some ''sales'' \<rparr>,
              no_conditions\<lparr> job_level := Some ''manager'', mfa_required := Some True \<rparr> ] \<rparr>
        nobody 0)
   \<and> matched (evaluate
        \<lparr> resolved_name = ''auditor'', resolved_permissions = {''AUDIT''},
          condition_blocks = [] \<rparr> nobody 0)"
proof -
  let ?b0 = "no_conditions\<lparr> department := Some ''sales'' \<rparr>"
  let ?b1 = "no_conditions\<lparr> job_level := Some ''manager'', mfa_required := Some True \<rparr>"
  let ?rr = "\<lparr> resolved_name = ''read_write'', resolved_permissions = {''INSERT''},
               condition_blocks = [?b0, ?b1] \<rparr>"
  let ?au = "\<lparr> resolved_name = ''auditor'', resolved_permissions = {''AUDIT''},
               condition_blocks = [] \<rparr>"
  let ?m = "nobody\<lparr> attr_job_level := Some ''manager'' \<rparr>"
  have ne: "condition_blocks ?rr \<noteq> []" by simp
  have m0: "\<not> block_matches ?m 0 ?b0" "block_matches ?m 0 ?b1"
    by (simp_all add: block_matches_def field_matches_def ip_matches_def no_conditions_def
          nobody_def)
  have n0: "\<not> block_matches nobody 0 ?b0" "\<not> block_matches nobody 0 ?b1"
    by (simp_all add: block_matches_def field_matches_def ip_matches_def no_conditions_def
          nobody_def)
  have first: "1 < length (condition_blocks ?rr) \<and> block_matches ?m 0 (condition_blocks ?rr ! 1)
      \<and> (\<forall>j < 1. \<not> block_matches ?m 0 (condition_blocks ?rr ! j))"
    using m0 by simp
  have none: "\<not> (\<exists>i < length (condition_blocks ?rr). block_matches nobody 0 (condition_blocks ?rr ! i))"
  proof -
    have "i = 0 \<or> i = 1" if "i < length (condition_blocks ?rr)" for i
      using that by auto
    with n0 show ?thesis by fastforce
  qed
  note t1 = evaluate_first_matching_block [of ?rr ?m 0]
  note t2 = evaluate_first_matching_block [of ?rr nobody 0]
  note t3 = evaluate_first_matching_block [of ?au nobody 0]
  from t1 ne first have a: "matched (evaluate ?rr ?m 0)"
    "matchedBlockIndex (evaluate ?rr ?m 0) = Some 1"
    by blast+
  from t2 ne none have b: "\<not> matched (evaluate ?rr nobody 0)" by blast
  from t3 have c: "matched (evaluate ?au nobody 0)" by simp
  from ne a b c show ?thesis by blast
qed

end
